theory Spec2Isabelle
  imports Main "HOL-Library.Multiset"
begin

section \<open>Exceptions and outcomes\<close>

text \<open>
  The Python exceptions the modelled code can see. The repository needs Python 3.8 or
  later (\<^verbatim>\<open>models.py\<close> uses an assignment expression), where
  \<^verbatim>\<open>asyncio.CancelledError\<close> derives from \<^verbatim>\<open>BaseException\<close> and not from
  \<^verbatim>\<open>Exception\<close>. \<open>Error msg\<close> stands for any other instance of an \<^verbatim>\<open>Exception\<close>
  subclass (a connection error, an HTTP error, ...).
\<close>

datatype exc = CancelledError | TimeoutError | TypeError | ValueError | Error string

text \<open>\<^verbatim>\<open>isinstance(e, Exception)\<close>: what an \<^verbatim>\<open>except Exception\<close> clause catches.\<close>

fun is_Exception :: "exc \<Rightarrow> bool" where
  "is_Exception CancelledError = False"
| "is_Exception _ = True"

text \<open>\<^verbatim>\<open>isinstance(e, asyncio.CancelledError)\<close>.\<close>

fun is_CancelledError :: "exc \<Rightarrow> bool" where
  "is_CancelledError CancelledError = True"
| "is_CancelledError _ = False"

text \<open>What awaiting an awaitable gives: a value, or a raised exception.\<close>

datatype 'a outcome = Returns 'a | Raises exc

section \<open>The registries (models/models.py)\<close>

text \<open>
  A \<^verbatim>\<open>datetime\<close> is a point on a linear time axis. Entities refer to each other by
  primary key. A Pony \<^verbatim>\<open>Set\<close> attribute is a duplicate-free collection of rows; it is
  kept as a list of keys, \<open>set_add\<close> adding a key only when it is absent.
\<close>

type_synonym datetime = int

definition set_add :: "'a \<Rightarrow> 'a list \<Rightarrow> 'a list" where
  "set_add x xs = (if x \<in> set xs then xs else xs @ [x])"

definition set_remove :: "'a \<Rightarrow> 'a list \<Rightarrow> 'a list" where
  "set_remove x xs = removeAll x xs"

text \<open>
  The environment of an update hook: the readings of \<^verbatim>\<open>datetime.now()\<close> at its three
  call sites and the result of \<^verbatim>\<open>utils.get_ipv4_address()\<close>.
\<close>

record env =
  now_modified :: datetime
  now_checked :: datetime
  now_connected :: datetime
  ipv4_address :: string

record Model =
  is_checking :: bool
  last_checked :: "datetime option"
  last_modified :: datetime

record SSH = Model +
  ssh_id :: nat
  ip :: string
  username :: string
  password :: string
  is_live :: bool
  port :: "nat option"

record Port = Model +
  port_id :: nat
  port_number :: int
  auto_connect :: bool
  ssh :: "nat option"
  is_connected :: bool
  external_ip :: string
  time_connected :: "datetime option"
  used_ssh_list :: "nat list"
  proxy_address :: string

definition Model_before_update :: "env \<Rightarrow> 'a Model_scheme \<Rightarrow> 'a Model_scheme" where
  "Model_before_update e self =
     (let self = self\<lparr>last_modified := now_modified e\<rparr>
      in if is_checking self then self\<lparr>last_checked := Some (now_checked e)\<rparr> else self)"

definition begin_checking :: "'a Model_scheme \<Rightarrow> 'a Model_scheme" where
  "begin_checking obj = obj\<lparr>is_checking := True\<rparr>"

text \<open>\<^verbatim>\<open>obj.set(**kwargs)\<close> is the field update \<open>kwargs\<close>.\<close>

definition end_checking :: "('a Model_scheme \<Rightarrow> 'a Model_scheme) \<Rightarrow> 'a Model_scheme \<Rightarrow> 'a Model_scheme" where
  "end_checking kwargs obj = (kwargs obj)\<lparr>is_checking := False\<rparr>"

definition Model_reset_status :: "'a Model_scheme \<Rightarrow> 'a Model_scheme" where
  "Model_reset_status self = self\<lparr>is_checking := False, last_checked := None\<rparr>"

subsection \<open>SSH\<close>

text \<open>
  \<^verbatim>\<open>SSH.used_ports\<close> is the reverse side of \<^verbatim>\<open>Port.used_ssh_list\<close>: one relation, stored
  with the ports. The hook of an SSH row therefore writes to the row of its port.
\<close>

definition used_ports :: "Port list \<Rightarrow> SSH \<Rightarrow> nat list" where
  "used_ports ports self = map port_id (filter (\<lambda>p. ssh_id self \<in> set (used_ssh_list p)) ports)"

definition SSH_before_update :: "env \<Rightarrow> SSH \<Rightarrow> Port list \<Rightarrow> SSH \<times> Port list" where
  "SSH_before_update e self ports =
     (let self = Model_before_update e self
      in case port self of
           None \<Rightarrow> (self, ports)
         | Some pid \<Rightarrow>
             if pid \<notin> set (used_ports ports self)
             then (self, map (\<lambda>p. if port_id p = pid
                                    then p\<lparr>used_ssh_list := set_add (ssh_id self) (used_ssh_list p)\<rparr>
                                    else p) ports)
             else (self, ports))"

text \<open>
  \<^verbatim>\<open>query.random(1)\<close>: at most one row, chosen by the random source \<open>r\<close>.
\<close>

definition random1 :: "nat \<Rightarrow> 'a list \<Rightarrow> 'a list" where
  "random1 r rows = (if rows = [] then [] else [rows ! (r mod length rows)])"

definition get_ssh_for_port :: "nat \<Rightarrow> SSH list \<Rightarrow> Port \<Rightarrow> bool \<Rightarrow> SSH option" where
  "get_ssh_for_port r cls port' unique =
     (let query = filter is_live cls;
          query = (if unique then filter (\<lambda>s. ssh_id s \<notin> set (used_ssh_list port')) query else query)
      in case random1 r query of
           [] \<Rightarrow> None
         | result # _ \<Rightarrow> Some result)"

subsection \<open>Port\<close>

fun str_nat :: "nat \<Rightarrow> string" where
  "str_nat n = (if n < 10 then [''0123456789'' ! n]
                else str_nat (n div 10) @ [''0123456789'' ! (n mod 10)])"

definition str_int :: "int \<Rightarrow> string" where
  "str_int i = (if i < 0 then CHR ''-'' # str_nat (nat (- i)) else str_nat (nat i))"

definition Port_before_update :: "env \<Rightarrow> Port \<Rightarrow> Port" where
  "Port_before_update e self =
     (let self = Model_before_update e self;
          self = (if is_connected self
                  then self\<lparr>time_connected :=
                          (case time_connected self of
                             Some t \<Rightarrow> Some t
                           | None \<Rightarrow> Some (now_connected e))\<rparr>
                  else self\<lparr>time_connected := None\<rparr>);
          self = (if is_connected self
                  then (case ssh self of
                          Some s \<Rightarrow>
                            if s \<notin> set (used_ssh_list self)
                            then self\<lparr>used_ssh_list := set_add s (used_ssh_list self)\<rparr>
                            else self
                        | None \<Rightarrow> self)
                  else self)
      in self\<lparr>proxy_address :=
                 ''socks5://'' @ ipv4_address e @ '':'' @ str_int (port_number self)\<rparr>)"

text \<open>
  \<^verbatim>\<open>self.ssh is not None and self.time_connected < time_expired\<close>: the conjunction
  short-circuits, and comparing \<^verbatim>\<open>None\<close> with a datetime raises \<^verbatim>\<open>TypeError\<close>.
\<close>

definition need_reset :: "Port \<Rightarrow> datetime \<Rightarrow> exc + bool" where
  "need_reset self time_expired =
     (if ssh self = None then Inr False
      else case time_connected self of
             None \<Rightarrow> Inl TypeError
           | Some t \<Rightarrow> Inr (t < time_expired))"

definition need_ssh :: "Port \<Rightarrow> bool" where
  "need_ssh self = (ssh self = None)"

definition assign_ssh :: "nat option \<Rightarrow> Port \<Rightarrow> Port" where
  "assign_ssh s self = self\<lparr>ssh := s, is_connected := False\<rparr>"

text \<open>
  \<^verbatim>\<open>used_ssh_list.remove(self.ssh)\<close>: Pony refuses \<^verbatim>\<open>None\<close> as an item with a
  \<^verbatim>\<open>ValueError\<close>; removing an absent item changes nothing.
\<close>

definition disconnect_ssh :: "bool \<Rightarrow> Port \<Rightarrow> exc + Port" where
  "disconnect_ssh remove_from_used self =
     (if remove_from_used
      then (case ssh self of
              None \<Rightarrow> Inl ValueError
            | Some s \<Rightarrow> Inr (assign_ssh None (self\<lparr>used_ssh_list := set_remove s (used_ssh_list self)\<rparr>)))
      else Inr (assign_ssh None self))"

definition Port_reset_status :: "Port \<Rightarrow> Port" where
  "Port_reset_status self =
     (Model_reset_status self)\<lparr>external_ip := '''', ssh := None, is_connected := False,
                                used_ssh_list := []\<rparr>"

text \<open>
  The two writes of the health checker, through \<^verbatim>\<open>end_checking\<close>: a confirmed
  connection with its external IP, and a lost one.
\<close>

definition mark_connected :: "string \<Rightarrow> Port \<Rightarrow> Port" where
  "mark_connected ipaddr = end_checking (\<lambda>p. p\<lparr>is_connected := True, external_ip := ipaddr\<rparr>)"

definition mark_disconnected :: "Port \<Rightarrow> Port" where
  "mark_disconnected = end_checking (\<lambda>p. p\<lparr>is_connected := False\<rparr>)"

subsection \<open>Writes and example rows\<close>

text \<open>
  A registry operation changes the row, and the write that ends it runs the update hook:
  \<open>after_update\<close> is the row as stored, or the exception the operation raised.
\<close>

definition after_update :: "env \<Rightarrow> exc + Port \<Rightarrow> exc + Port" where
  "after_update e r = map_sum id (Port_before_update e) r"

text \<open>The port with a given primary key.\<close>

definition find_port :: "nat \<Rightarrow> Port list \<Rightarrow> Port option" where
  "find_port pid ports = find (\<lambda>p. port_id p = pid) ports"

definition example_env :: env where
  "example_env = \<lparr>now_modified = 100, now_checked = 100, now_connected = 100,
                   ipv4_address = ''192.168.1.2''\<rparr>"

text \<open>
  The port of the reset scenario: connected at time 5 through credential 1, external IP
  1.2.3.4, credentials 1 and 2 in its history.
\<close>

definition example_port :: Port where
  "example_port = \<lparr>is_checking = False, last_checked = None, last_modified = 7,
            port_id = 1, port_number = 8000, auto_connect = True, ssh = Some 1,
            is_connected = True, external_ip = ''1.2.3.4'', time_connected = Some 5,
            used_ssh_list = [1, 2], proxy_address = ''''\<rparr>"

definition example_ssh :: "nat \<Rightarrow> bool \<Rightarrow> SSH" where
  "example_ssh i live = \<lparr>is_checking = False, last_checked = None, last_modified = 0,
       ssh_id = i, ip = ''10.0.0.5'', username = ''user'', password = ''pass'',
       is_live = live, port = None\<rparr>"

section \<open>Utilities (utils.py)\<close>

subsection \<open>Regular expressions as Python's \<^verbatim>\<open>re\<close> matches them\<close>

text \<open>
  A Python \<^verbatim>\<open>str\<close> is kept as its UTF-8 bytes, so an ASCII string is itself and a
  character class over ASCII characters decides every byte of a character alike.

  The matcher is a backtracking one. \<open>matches r (s, gs)\<close> lists, in the order Python tries
  them, the ways \<open>r\<close> matches a prefix of \<open>s\<close>: each is the rest of the subject with the
  groups closed so far. A greedy repetition tries one more round before it stops. The
  first way of the whole pattern is the match Python reports. Groups are recorded when
  they close; in a pattern with no nested group and no group under a repetition, that is
  the order of \<^verbatim>\<open>match.groups()\<close>.
\<close>

datatype char_class = Among string | Except string

fun in_class :: "char_class \<Rightarrow> char \<Rightarrow> bool" where
  "in_class (Among cs) c = (c \<in> set cs)"
| "in_class (Except cs) c = (c \<notin> set cs)"

datatype regex =
    Chars char_class
  | Cat regex regex
  | Repeat nat nat regex
  | Star regex
  | Group regex

type_synonym mstate = "string \<times> string list"

text \<open>\<open>times f lo hi\<close>: between \<open>lo\<close> and \<open>hi\<close> rounds of \<open>f\<close>, the longer runs first.\<close>

fun times :: "(mstate \<Rightarrow> mstate list) \<Rightarrow> nat \<Rightarrow> nat \<Rightarrow> mstate \<Rightarrow> mstate list" where
  "times f lo 0 st = (if lo = 0 then [st] else [])"
| "times f lo (Suc hi) st =
     concat (map (times f (lo - 1) hi) (f st)) @ (if lo = 0 then [st] else [])"

text \<open>
  A star is only put on a pattern that consumes a character in each round, so it runs at
  most as many rounds as the subject has characters left.
\<close>

primrec matches :: "regex \<Rightarrow> mstate \<Rightarrow> mstate list" where
  "matches (Chars k) st =
     (case fst st of
        [] \<Rightarrow> []
      | c # cs \<Rightarrow> if in_class k c then [(cs, snd st)] else [])"
| "matches (Cat a b) st = concat (map (matches b) (matches a st))"
| "matches (Repeat lo hi r) st = times (matches r) lo hi st"
| "matches (Star r) st = times (matches r) 0 (length (fst st)) st"
| "matches (Group r) st =
     map (\<lambda>m. (fst m, snd m @ [take (length (fst st) - length (fst m)) (fst st)]))
       (matches r st)"

text \<open>
  \<^verbatim>\<open>re.search\<close>: the first match at the leftmost position that has one; the result is
  \<^verbatim>\<open>match.groups()\<close>.
\<close>

fun search :: "regex \<Rightarrow> string \<Rightarrow> string list option" where
  "search r s =
     (case matches r (s, []) of
        m # _ \<Rightarrow> Some (snd m)
      | [] \<Rightarrow> (case s of [] \<Rightarrow> None | _ # cs \<Rightarrow> search r cs))"

declare search.simps [simp del]

subsection \<open>\<^verbatim>\<open>parse_ssh_file\<close>\<close>

text \<open>
  \<^verbatim>\<open>((?:[0-9]{1,3}\.){3}[0-9]{1,3})[;,|]([^;,|]*)[;,|]([^;,|]*)\<close>
\<close>

definition ssh_pattern :: regex where
  "ssh_pattern =
     Cat (Group (Cat (Repeat 3 3 (Cat (Repeat 1 3 (Chars (Among ''0123456789'')))
                                      (Chars (Among ''.''))))
                     (Repeat 1 3 (Chars (Among ''0123456789'')))))
      (Cat (Chars (Among '';,|''))
      (Cat (Group (Star (Chars (Except '';,|''))))
      (Cat (Chars (Among '';,|''))
           (Group (Star (Chars (Except '';,|'')))))))"

text \<open>
  \<^verbatim>\<open>str.splitlines()\<close>. \<open>linebreak s\<close> is the number of bytes of the line boundary at
  the head of \<open>s\<close>, 0 when there is none: CR LF, the one-byte boundaries LF, CR, VT, FF,
  FS, GS and RS, and the UTF-8 forms of U+0085, U+2028 and U+2029.
\<close>

definition linebreak :: "string \<Rightarrow> nat" where
  "linebreak s =
     (if take 2 s = [CHR 0x0D, CHR 0x0A] then 2
      else if s \<noteq> [] \<and> hd s \<in> set [CHR 0x0A, CHR 0x0D, CHR 0x0B, CHR 0x0C, CHR 0x1C, CHR 0x1D, CHR 0x1E]
      then 1
      else if take 2 s = [CHR 0xC2, CHR 0x85] then 2
      else if take 3 s = [CHR 0xE2, CHR 0x80, CHR 0xA8] \<or> take 3 s = [CHR 0xE2, CHR 0x80, CHR 0xA9]
      then 3
      else 0)"

function splitlines_from :: "string \<Rightarrow> string \<Rightarrow> string list" where
  "splitlines_from cur s =
     (if s = [] then (if cur = [] then [] else [cur])
      else if 0 < linebreak s then cur # splitlines_from [] (drop (linebreak s) s)
      else splitlines_from (cur @ [hd s]) (tl s))"
  by pat_completeness auto
termination
  by (relation "measure (\<lambda>(cur, s). length s)") auto

declare splitlines_from.simps [simp del]

definition splitlines :: "string \<Rightarrow> string list" where
  "splitlines s = splitlines_from [] s"

text \<open>
  A result is the dictionary with the keys \<^verbatim>\<open>ip\<close>, \<^verbatim>\<open>username\<close> and \<^verbatim>\<open>password\<close>.
  Unpacking \<^verbatim>\<open>match.groups()\<close> into three names raises \<^verbatim>\<open>ValueError\<close> when it does
  not have three items.
\<close>

type_synonym ssh_info = "(string \<times> string) list"

fun parse_lines :: "ssh_info list \<Rightarrow> string list \<Rightarrow> exc + ssh_info list" where
  "parse_lines results [] = Inr results"
| "parse_lines results (line # lines) =
     (case search ssh_pattern line of
        None \<Rightarrow> parse_lines results lines
      | Some groups \<Rightarrow>
          (case groups of
             [ip', username', password'] \<Rightarrow>
               parse_lines
                 (results @ [[(''ip'', ip'), (''username'', username'), (''password'', password')]])
                 lines
           | _ \<Rightarrow> Inl ValueError))"

definition parse_ssh_file :: "string \<Rightarrow> exc + ssh_info list" where
  "parse_ssh_file file_content = parse_lines [] (splitlines file_content)"

subsection \<open>\<^verbatim>\<open>get_proxy_ip\<close>\<close>




subsection \<open>\<^verbatim>\<open>get_first_success\<close>\<close>

text \<open>
  \<^verbatim>\<open>asyncio.as_completed\<close> hands the futures over in the order they complete: \<open>order\<close>
  lists the indices of the awaitables in that order.
\<close>

definition as_completed :: "nat list \<Rightarrow> 'a list \<Rightarrow> 'a list" where
  "as_completed order tasks = map (\<lambda>i. tasks ! i) order"

text \<open>
  The loop with the statements after it. \<^verbatim>\<open>except Exception\<close> lets an exception that is
  not an \<^verbatim>\<open>Exception\<close> leave the function at once; \<^verbatim>\<open>raise None\<close>, when no awaitable
  was given, is a \<^verbatim>\<open>TypeError\<close>.
\<close>

fun first_success_loop :: "exc option \<Rightarrow> 'a outcome list \<Rightarrow> exc + 'a" where
  "first_success_loop exception [] =
     (case exception of
        None \<Rightarrow> Inl TypeError
      | Some e \<Rightarrow> if \<not> is_CancelledError e then Inl e else Inl TimeoutError)"
| "first_success_loop exception (Returns result # futures) = Inr result"
| "first_success_loop exception (Raises e # futures) =
     (if is_Exception e then first_success_loop (Some e) futures else Inl e)"

definition get_first_success :: "nat list \<Rightarrow> 'a outcome list \<Rightarrow> exc + 'a" where
  "get_first_success order aws = first_success_loop None (as_completed order aws)"

subsection \<open>Outcomes an \<^verbatim>\<open>except Exception\<close> clause handles, and example networks\<close>






subsection \<open>Lines with a credential\<close>

text \<open>
  The digits, and the delimiters of the fields.
\<close>

definition is_digit :: "char \<Rightarrow> bool" where
  "is_digit c = (c \<in> set ''0123456789'')"

definition is_delim :: "char \<Rightarrow> bool" where
  "is_delim c = (c \<in> set '';,|'')"

text \<open>
  What the pattern amounts to, read from left to right without going back. An octet is
  the longest run of digits at the head, when it has one to three of them; three octets
  each with a dot and a fourth one are the address; a field is a delimiter with the
  longest run of other characters after it.
\<close>

definition after_octet :: "string \<Rightarrow> string option" where
  "after_octet s =
     (let n = length (takeWhile is_digit s)
      in if 1 \<le> n \<and> n \<le> 3 then Some (drop n s) else None)"

definition octet_dot :: "string \<Rightarrow> string option" where
  "octet_dot s =
     (case after_octet s of
        None \<Rightarrow> None
      | Some r \<Rightarrow> (case r of [] \<Rightarrow> None | c # r' \<Rightarrow> if c = CHR ''.'' then Some r' else None))"

definition scan_ip :: "string \<Rightarrow> (string \<times> string) option" where
  "scan_ip s =
     (case octet_dot s of None \<Rightarrow> None | Some r1 \<Rightarrow>
      case octet_dot r1 of None \<Rightarrow> None | Some r2 \<Rightarrow>
      case octet_dot r2 of None \<Rightarrow> None | Some r3 \<Rightarrow>
      case after_octet r3 of None \<Rightarrow> None | Some r4 \<Rightarrow>
        Some (take (length s - length r4) s, r4))"

definition scan_field :: "string \<Rightarrow> (string \<times> string) option" where
  "scan_field s =
     (case s of
        [] \<Rightarrow> None
      | d # r \<Rightarrow>
          if is_delim d
          then Some (takeWhile (\<lambda>c. \<not> is_delim c) r, dropWhile (\<lambda>c. \<not> is_delim c) r)
          else None)"

definition match_here :: "string \<Rightarrow> string list option" where
  "match_here s =
     (case scan_ip s of None \<Rightarrow> None | Some (i, r) \<Rightarrow>
      case scan_field r of None \<Rightarrow> None | Some (u, r') \<Rightarrow>
      case scan_field r' of None \<Rightarrow> None | Some (p, r'') \<Rightarrow> Some [i, u, p])"

text \<open>
  The groups of the first way a pattern matches at the head of the subject.
\<close>

definition first_groups :: "mstate list \<Rightarrow> string list option" where
  "first_groups ms = (case ms of [] \<Rightarrow> None | m # _ \<Rightarrow> Some (snd m))"

text \<open>
  The shape of the text: a field has no delimiter in it; an octet has one to three
  digits, whatever number they spell; an address is four octets joined by dots. A line
  has a credential when an address, a delimiter, a field and a second delimiter follow
  one another somewhere in it; it has an address when an address stands somewhere in it.
  \<open>ends_field\<close> and \<open>ends_digits\<close> say that a rest of the line cannot lengthen a field or
  a run of digits. \<open>one_line\<close> is a text with no line boundary in it.
\<close>

definition no_delim :: "string \<Rightarrow> bool" where
  "no_delim u = list_all (\<lambda>c. \<not> is_delim c) u"

definition octet_shape :: "string \<Rightarrow> bool" where
  "octet_shape a = (1 \<le> length a \<and> length a \<le> 3 \<and> list_all is_digit a)"

definition ip_shape :: "string \<Rightarrow> bool" where
  "ip_shape i = (\<exists>a b c d. octet_shape a \<and> octet_shape b \<and> octet_shape c \<and> octet_shape d
                   \<and> i = a @ ''.'' @ b @ ''.'' @ c @ ''.'' @ d)"

definition ends_field :: "string \<Rightarrow> bool" where
  "ends_field r = (case r of [] \<Rightarrow> True | c # _ \<Rightarrow> is_delim c)"

definition ends_digits :: "string \<Rightarrow> bool" where
  "ends_digits r = (case r of [] \<Rightarrow> True | c # _ \<Rightarrow> \<not> is_digit c)"



fun one_line :: "string \<Rightarrow> bool" where
  "one_line [] = True"
| "one_line (c # cs) = (linebreak (c # cs) = 0 \<and> one_line cs)"

section \<open>Properties of the registries\<close>

lemma Model_before_update_Port_fields:
  "ssh (Model_before_update e p) = ssh p"
  "is_connected (Model_before_update e p) = is_connected p"
  "time_connected (Model_before_update e p) = time_connected p"
  "used_ssh_list (Model_before_update e p) = used_ssh_list p"
  "external_ip (Model_before_update e p) = external_ip p"
  "port_number (Model_before_update e p) = port_number p"
  by (simp_all add: Model_before_update_def Let_def)

subsection \<open>Helper facts\<close>

lemma Port_before_update_fields:
  "ssh (Port_before_update e p) = ssh p"
  "is_connected (Port_before_update e p) = is_connected p"
  "external_ip (Port_before_update e p) = external_ip p"
  "port_number (Port_before_update e p) = port_number p"
  "time_connected (Port_before_update e p) =
     (if is_connected p then (case time_connected p of Some t \<Rightarrow> Some t | None \<Rightarrow> Some (now_connected e)) else None)"
  "used_ssh_list (Port_before_update e p) =
     (if is_connected p then (case ssh p of Some s \<Rightarrow> set_add s (used_ssh_list p) | None \<Rightarrow> used_ssh_list p)
      else used_ssh_list p)"
  by (simp_all add: Port_before_update_def Let_def Model_before_update_Port_fields set_add_def split: option.splits)

lemma count_list_set_add:
  "distinct xs \<Longrightarrow> count_list (set_add x xs) x = 1"
  by (induction xs) (auto simp: set_add_def count_list_0_iff)

lemma distinct_set_add: "distinct xs \<Longrightarrow> distinct (set_add x xs)"
  by (simp add: set_add_def)

lemma set_add_idem: "set_add x (set_add x xs) = set_add x xs"
  by (simp add: set_add_def)

lemma mark_connected_fields:
  "ssh (mark_connected a p) = ssh p"
  "is_connected (mark_connected a p) = True"
  "external_ip (mark_connected a p) = a"
  "time_connected (mark_connected a p) = time_connected p"
  "used_ssh_list (mark_connected a p) = used_ssh_list p"
  by (simp_all add: mark_connected_def end_checking_def)

lemma mark_disconnected_fields:
  "ssh (mark_disconnected p) = ssh p"
  "is_connected (mark_disconnected p) = False"
  "used_ssh_list (mark_disconnected p) = used_ssh_list p"
  by (simp_all add: mark_disconnected_def end_checking_def)

lemma find_Some_mem: "find P xs = Some x \<Longrightarrow> x \<in> set xs \<and> P x"
  by (induction xs) (auto split: if_splits)

lemma find_map_same:
  "(\<And>x. P (f x) = P x) \<Longrightarrow> find P (map f xs) = map_option f (find P xs)"
  by (induction xs) auto

lemma Model_before_update_SSH_fields:
  "ssh_id (Model_before_update e s) = ssh_id s"
  "port (Model_before_update e s) = port s"
  "is_live (Model_before_update e s) = is_live s"
  by (simp_all add: Model_before_update_def Let_def)

lemma count_list_distinct_member:
  "distinct xs \<Longrightarrow> x \<in> set xs \<Longrightarrow> count_list xs x = 1"
  by (induction xs) (auto simp: count_list_0_iff)

lemma used_ports_member:
  assumes "find_port pid ports = Some p" and "distinct (map port_id ports)"
  shows "pid \<in> set (used_ports ports s) \<longleftrightarrow> ssh_id s \<in> set (used_ssh_list p)"
proof
  from assms(1) have p: "p \<in> set ports" "port_id p = pid"
    using find_Some_mem [of "\<lambda>p. port_id p = pid" ports p] by (simp_all add: find_port_def)
  from assms(2) have inj: "inj_on port_id (set ports)"
    by (simp add: distinct_map)
  {
    assume "pid \<in> set (used_ports ports s)"
    then obtain q where q: "q \<in> set ports" "ssh_id s \<in> set (used_ssh_list q)" "port_id q = pid"
      unfolding used_ports_def by auto
    from inj q(1) p(1) q(3) p(2) have "q = p"
      by (simp add: inj_on_def)
    with q(2) show "ssh_id s \<in> set (used_ssh_list p)"
      by simp
  }
  {
    assume "ssh_id s \<in> set (used_ssh_list p)"
    with p have "p \<in> set (filter (\<lambda>p. ssh_id s \<in> set (used_ssh_list p)) ports)"
      by simp
    then have "port_id p \<in> set (used_ports ports s)"
      unfolding used_ports_def by (simp only: set_map) (rule imageI)
    with p(2) show "pid \<in> set (used_ports ports s)"
      by simp
  }
qed

lemma SSH_before_update_history_once:
  assumes "port s = Some pid" and "find_port pid ports = Some p"
    and "distinct (map port_id ports)" and "distinct (used_ssh_list p)"
  shows "case find_port pid (snd (SSH_before_update e s ports)) of
           None \<Rightarrow> False
         | Some p' \<Rightarrow> count_list (used_ssh_list p') (ssh_id s) = 1
                      \<and> set (used_ssh_list p') = insert (ssh_id s) (set (used_ssh_list p))"
proof (cases "ssh_id s \<in> set (used_ssh_list p)")
  case True
  then have "pid \<in> set (used_ports ports (Model_before_update e s))"
    using used_ports_member [OF assms(2,3), of "Model_before_update e s"]
    by (simp add: Model_before_update_SSH_fields)
  then have "snd (SSH_before_update e s ports) = ports"
    using assms(1) by (simp add: SSH_before_update_def Let_def Model_before_update_SSH_fields)
  with True assms show ?thesis
    by (auto simp: count_list_distinct_member)
next
  case False
  let ?f = "\<lambda>q. if port_id q = pid
                 then q\<lparr>used_ssh_list := set_add (ssh_id s) (used_ssh_list q)\<rparr> else q"
  from False have "pid \<notin> set (used_ports ports (Model_before_update e s))"
    using used_ports_member [OF assms(2,3), of "Model_before_update e s"]
    by (simp add: Model_before_update_SSH_fields)
  then have "snd (SSH_before_update e s ports) = map ?f ports"
    using assms(1) by (simp add: SSH_before_update_def Let_def Model_before_update_SSH_fields)
  moreover have "find_port pid (map ?f ports) = map_option ?f (find_port pid ports)"
    unfolding find_port_def by (rule find_map_same) simp
  moreover have "port_id p = pid"
    using assms(2) find_Some_mem [of "\<lambda>p. port_id p = pid" ports p] by (simp add: find_port_def)
  ultimately show ?thesis
    using assms(2,4) False by (simp add: count_list_set_add) (simp add: set_add_def)
qed

lemma random1_cases:
  "random1 r rows = [] \<longleftrightarrow> rows = []"
  by (simp add: random1_def)

lemma random1_member: "x \<in> set (random1 r rows) \<Longrightarrow> x \<in> set rows"
  by (auto simp: random1_def split: if_splits)

subsection \<open>Selecting a credential\<close>

text \<open>
  Claim C1. Whatever the random source, the credential table and the port,
  \<open>get_ssh_for_port\<close> with \<open>unique = True\<close> returns nothing exactly when no live
  credential is outside the port's history, and otherwise a live credential of the table
  that is not in the history; with \<open>unique = False\<close> it returns nothing exactly when no
  credential is live.
\<close>

theorem get_ssh_for_port_sound_complete:
  "(get_ssh_for_port r cls p True = None) =
      ({s \<in> set cls. is_live s} - {s. ssh_id s \<in> set (used_ssh_list p)} = {})
   \<and> (get_ssh_for_port r cls p False = None) = ({s \<in> set cls. is_live s} = {})
   \<and> (\<forall>s. get_ssh_for_port r cls p True = Some s \<longrightarrow>
          s \<in> set cls \<and> is_live s \<and> ssh_id s \<notin> set (used_ssh_list p))
   \<and> (\<forall>s. get_ssh_for_port r cls p False = Some s \<longrightarrow> s \<in> set cls \<and> is_live s)"
proof -
  let ?live = "filter is_live cls"
  let ?fresh = "filter (\<lambda>s. ssh_id s \<notin> set (used_ssh_list p)) ?live"
  have none: "(case random1 r q of [] \<Rightarrow> None | x # _ \<Rightarrow> Some x) = None \<longleftrightarrow> q = []" for q :: "SSH list"
    by (cases "random1 r q") (auto simp: random1_def split: if_splits)
  have some: "(case random1 r q of [] \<Rightarrow> None | x # _ \<Rightarrow> Some x) = Some s \<Longrightarrow> s \<in> set q" for q :: "SSH list" and s
    using random1_member [of s r q] by (cases "random1 r q") auto
  have 1: "(get_ssh_for_port r cls p True = None) = (?fresh = [])"
    by (simp add: get_ssh_for_port_def Let_def none)
  have 2: "(get_ssh_for_port r cls p False = None) = (?live = [])"
    by (simp add: get_ssh_for_port_def Let_def none)
  have 3: "get_ssh_for_port r cls p True = Some s \<Longrightarrow> s \<in> set ?fresh" for s
    by (rule some) (simp add: get_ssh_for_port_def Let_def)
  have 4: "get_ssh_for_port r cls p False = Some s \<Longrightarrow> s \<in> set ?live" for s
    by (rule some) (simp add: get_ssh_for_port_def Let_def)
  have e1: "(?fresh = []) = ({s \<in> set cls. is_live s} - {s. ssh_id s \<in> set (used_ssh_list p)} = {})"
    by (auto simp: filter_empty_conv)
  have e2: "(?live = []) = ({s \<in> set cls. is_live s} = {})"
    by (auto simp: filter_empty_conv)
  show ?thesis
    using 1 2 3 4 e1 e2 by auto
qed

text \<open>
  At a table of three credentials, of which only the third is live and unused by the
  example port, the third is returned; with only used credentials nothing is.
\<close>

theorem get_ssh_for_port_witness:
  "get_ssh_for_port 5 [example_ssh 1 True, example_ssh 2 False, example_ssh 3 True] example_port True
     = Some (example_ssh 3 True)
   \<and> example_ssh 3 True \<in> set [example_ssh 1 True, example_ssh 2 False, example_ssh 3 True]
   \<and> is_live (example_ssh 3 True)
   \<and> ssh_id (example_ssh 3 True) \<notin> set (used_ssh_list example_port)
   \<and> get_ssh_for_port 5 [example_ssh 1 True, example_ssh 2 True] example_port True = None"
proof -
  have a: "get_ssh_for_port 5 [example_ssh 1 True, example_ssh 2 False, example_ssh 3 True] example_port True
     = Some (example_ssh 3 True)"
    by (simp add: get_ssh_for_port_def random1_def example_ssh_def example_port_def)
  have b: "{s \<in> set [example_ssh 1 True, example_ssh 2 True]. is_live s}
             - {s. ssh_id s \<in> set (used_ssh_list example_port)} = {}"
    by (auto simp: example_ssh_def example_port_def)
  show ?thesis
    using a b
      get_ssh_for_port_sound_complete [of 5 "[example_ssh 1 True, example_ssh 2 False, example_ssh 3 True]" example_port]
      get_ssh_for_port_sound_complete [of 5 "[example_ssh 1 True, example_ssh 2 True]" example_port]
    by simp
qed

subsection \<open>Connection time\<close>

text \<open>
  Claim C2. In the row the update hook leaves, whatever state the mutation before it
  produced, \<open>time_connected\<close> is set exactly when \<open>is_connected\<close> holds.
\<close>

theorem time_connected_iff_is_connected:
  "(time_connected (Port_before_update e p) \<noteq> None) = is_connected (Port_before_update e p)"
  by (simp add: Port_before_update_fields split: option.splits)

text \<open>
  The same for each registry operation, with the values it leaves.
\<close>

lemma registry_operations_keep_invariant:
  "time_connected (Port_before_update e (assign_ssh s p)) = None"
  "\<not> is_connected (Port_before_update e (assign_ssh s p))"
  "time_connected (Port_before_update e (mark_connected a p)) \<noteq> None"
  "is_connected (Port_before_update e (mark_connected a p))"
  "time_connected (Port_before_update e (mark_disconnected p)) = None"
  "\<not> is_connected (Port_before_update e (mark_disconnected p))"
  "time_connected (Port_before_update e (Port_reset_status p)) = None"
  "\<not> is_connected (Port_before_update e (Port_reset_status p))"
  by (simp_all add: Port_before_update_fields assign_ssh_def mark_connected_fields
      mark_disconnected_fields Port_reset_status_def split: option.splits)

subsection \<open>Disconnecting and resetting\<close>

text \<open>
  Claim C4, as the code has it. \<open>disconnect_ssh\<close> without removal, once written, leaves
  the port unassigned and disconnected with no connection time, its history and its
  external IP as they were; with removal, on an assigned port, it also takes the
  assigned credential, and only that one, out of the history. \<open>reset_status\<close>, once
  written, leaves the port unassigned and disconnected with no connection time, an empty
  external IP and an empty history.
\<close>

theorem disconnect_and_reset_effects:
  "(case after_update e (disconnect_ssh False p) of
      Inl _ \<Rightarrow> False
    | Inr q \<Rightarrow> ssh q = None \<and> \<not> is_connected q \<and> time_connected q = None
              \<and> used_ssh_list q = used_ssh_list p \<and> external_ip q = external_ip p)
   \<and> (ssh p = Some s \<longrightarrow>
        (case after_update e (disconnect_ssh True p) of
           Inl _ \<Rightarrow> False
         | Inr q \<Rightarrow> ssh q = None \<and> \<not> is_connected q \<and> time_connected q = None
                   \<and> used_ssh_list q = removeAll s (used_ssh_list p)
                   \<and> external_ip q = external_ip p))
   \<and> (let q = Port_before_update e (Port_reset_status p)
      in ssh q = None \<and> \<not> is_connected q \<and> time_connected q = None
         \<and> external_ip q = '''' \<and> used_ssh_list q = [])"
  by (simp add: after_update_def disconnect_ssh_def assign_ssh_def Port_reset_status_def
      Port_before_update_fields set_remove_def Let_def)

text \<open>
  At the example port, which is assigned credential 1.
\<close>

theorem disconnect_and_reset_effects_witness:
  "ssh example_port = Some 1
   \<and> map_sum id used_ssh_list (after_update example_env (disconnect_ssh True example_port)) = Inr [2]
   \<and> map_sum id used_ssh_list (after_update example_env (disconnect_ssh False example_port)) = Inr [1, 2]"
  using disconnect_and_reset_effects [where e = example_env and p = example_port and s = 1]
  by (simp add: example_port_def split: sum.splits)

text \<open>
  Claim C4 as stated fails at the example port (connected at time 5, external IP
  1.2.3.4, history 1 and 2): \<open>disconnect_ssh\<close> keeps the external IP, with removal it
  leaves credential 2 in the history, and \<open>reset_status\<close> empties the history without
  being asked to.
\<close>

theorem reset_counterexample:
  "is_connected example_port \<and> time_connected example_port = Some 5
   \<and> external_ip example_port = ''1.2.3.4'' \<and> used_ssh_list example_port = [1, 2]
   \<and> map_sum id external_ip (after_update example_env (disconnect_ssh False example_port)) = Inr ''1.2.3.4''
   \<and> map_sum id used_ssh_list (after_update example_env (disconnect_ssh True example_port)) = Inr [2]
   \<and> used_ssh_list (Port_before_update example_env (Port_reset_status example_port)) = []"
  by (simp add: after_update_def disconnect_ssh_def assign_ssh_def Port_reset_status_def
      Port_before_update_fields set_remove_def example_port_def)

subsection \<open>The used-credential history\<close>

text \<open>
  Claim C5. On a port with credential \<open>s\<close> assigned and a duplicate-free history,
  marking it connected and writing it twice in a row leaves \<open>s\<close> in the history exactly
  once, and the second write does not change the history; so do two successive writes
  of a connected port.
\<close>

theorem connected_twice_history_once:
  assumes "ssh p = Some s" and "distinct (used_ssh_list p)"
  shows "count_list (used_ssh_list (Port_before_update e2 (mark_connected a2
            (Port_before_update e1 (mark_connected a1 p))))) s = 1
       \<and> used_ssh_list (Port_before_update e2 (mark_connected a2
            (Port_before_update e1 (mark_connected a1 p))))
          = used_ssh_list (Port_before_update e1 (mark_connected a1 p))
       \<and> (is_connected p \<longrightarrow>
            count_list (used_ssh_list (Port_before_update e2 (Port_before_update e1 p))) s = 1
            \<and> used_ssh_list (Port_before_update e2 (Port_before_update e1 p))
               = used_ssh_list (Port_before_update e1 p))"
  using assms
  by (simp add: Port_before_update_fields mark_connected_fields set_add_idem count_list_set_add)

text \<open>
  At the example port, marked connected twice.
\<close>

theorem connected_twice_history_once_witness:
  "ssh example_port = Some 1 \<and> distinct (used_ssh_list example_port)
   \<and> used_ssh_list (Port_before_update example_env (mark_connected ''5.6.7.8''
        (Port_before_update example_env (mark_connected ''5.6.7.8'' example_port)))) = [1, 2]
   \<and> count_list [1, 2 :: nat] 1 = 1"
proof -
  have h: "ssh example_port = Some 1" "distinct (used_ssh_list example_port)"
    by (simp_all add: example_port_def)
  have u: "used_ssh_list (Port_before_update example_env (mark_connected ''5.6.7.8'' example_port)) = [1, 2]"
    by (simp add: Port_before_update_fields mark_connected_fields example_port_def set_add_def)
  show ?thesis
    using h u connected_twice_history_once [OF h, of example_env "''5.6.7.8''" example_env "''5.6.7.8''"]
    by simp
qed

subsection \<open>Staleness\<close>

text \<open>
  Claim C6. On a port with a credential and a connection time \<open>t\<close>, \<open>need_reset\<close>
  answers whether \<open>t\<close> is strictly before the cutoff; on a port without a credential it
  answers no.
\<close>

theorem need_reset_by_cutoff:
  "(ssh p \<noteq> None \<and> time_connected p = Some t \<longrightarrow> need_reset p cutoff = Inr (t < cutoff))
   \<and> (ssh p = None \<longrightarrow> need_reset p cutoff = Inr False)"
  by (auto simp: need_reset_def)

text \<open>
  The example port, connected at time 5, against the cutoffs 6, 5 and 4, and after a
  reset.
\<close>

theorem need_reset_by_cutoff_witness:
  "ssh example_port \<noteq> None \<and> time_connected example_port = Some 5
   \<and> need_reset example_port 6 = Inr True \<and> need_reset example_port 5 = Inr False
   \<and> need_reset example_port 4 = Inr False
   \<and> ssh (Port_reset_status example_port) = None
   \<and> need_reset (Port_reset_status example_port) 6 = Inr False"
proof -
  have h: "ssh example_port \<noteq> None \<and> time_connected example_port = Some 5"
    "ssh (Port_reset_status example_port) = None"
    by (simp_all add: example_port_def Port_reset_status_def)
  show ?thesis
    using h need_reset_by_cutoff [of example_port 5 6] need_reset_by_cutoff [of example_port 5 5]
      need_reset_by_cutoff [of example_port 5 4]
      need_reset_by_cutoff [of "Port_reset_status example_port" 0 6]
    by simp
qed

text \<open>
  Claim C9. \<open>need_reset\<close> returns a boolean exactly when an assigned credential comes
  with a connection time. A row written with a credential and \<open>is_connected\<close> false,
  as \<open>assign_ssh\<close> leaves it, makes \<open>need_reset\<close> raise \<open>TypeError\<close>.
\<close>

theorem need_reset_fails_without_time_connected:
  "((\<exists>b. need_reset p cutoff = Inr b) = (ssh p \<noteq> None \<longrightarrow> time_connected p \<noteq> None))
   \<and> (ssh p \<noteq> None \<and> \<not> is_connected p \<longrightarrow>
        need_reset (Port_before_update e p) cutoff = Inl TypeError)
   \<and> need_reset (Port_before_update e (assign_ssh (Some s) p)) cutoff = Inl TypeError"
  by (auto simp: need_reset_def Port_before_update_fields assign_ssh_def split: option.splits)

text \<open>
  The example port after credential 3 is assigned to it and the row is written.
\<close>

theorem need_reset_fails_without_time_connected_witness:
  "ssh (assign_ssh (Some 3) example_port) \<noteq> None
   \<and> \<not> is_connected (assign_ssh (Some 3) example_port)
   \<and> need_reset (Port_before_update example_env (assign_ssh (Some 3) example_port)) 6 = Inl TypeError
   \<and> need_reset example_port 6 = Inr True"
proof -
  have h: "ssh (assign_ssh (Some 3) example_port) \<noteq> None \<and> \<not> is_connected (assign_ssh (Some 3) example_port)"
    by (simp add: assign_ssh_def)
  have g: "need_reset example_port 6 = Inr True"
    by (simp add: need_reset_def example_port_def)
  show ?thesis
    using h g need_reset_fails_without_time_connected [of "assign_ssh (Some 3) example_port" 6 example_env 3]
    by simp
qed

section \<open>Properties of the utilities\<close>

subsection \<open>The first success of several awaitables\<close>

text \<open>
  While only \<^verbatim>\<open>Exception\<close>s have been raised, the loop returns the first result that
  completes, raises the last failure when nothing is left, and lets a cancellation out
  as it is. It raises \<^verbatim>\<open>TimeoutError\<close> only when an awaitable raised that itself: the branch
  that would turn a cancellation into a timeout is never reached from the start of the
  loop.
\<close>

lemma cancelled_not_Exception: "is_CancelledError e = (\<not> is_Exception e)"
  by (cases e) simp_all

lemma first_success_loop_first_result:
  assumes "\<forall>f \<in> set fs. \<exists>e. f = Raises e \<and> is_Exception e"
  shows "first_success_loop exception (fs @ Returns x # rest) = Inr x"
  using assms by (induction fs arbitrary: exception) auto

lemma first_success_loop_last_failure:
  assumes "\<forall>f \<in> set fs. \<exists>e. f = Raises e \<and> is_Exception e"
  shows "first_success_loop exception (fs @ [Raises e]) = Inl e"
  using assms by (induction fs arbitrary: exception) (auto simp: cancelled_not_Exception)

lemma first_success_loop_cancelled:
  assumes "\<forall>f \<in> set fs. \<exists>e. f = Raises e \<and> is_Exception e"
  shows "first_success_loop exception (fs @ Raises CancelledError # rest) = Inl CancelledError"
  using assms by (induction fs arbitrary: exception) auto

lemma first_success_loop_timeout:
  "first_success_loop exception fs = Inl TimeoutError \<Longrightarrow>
     exception = Some CancelledError \<or> exception = Some TimeoutError \<or> Raises TimeoutError \<in> set fs"
proof (induction exception fs rule: first_success_loop.induct)
  case (1 exception)
  then show ?case
    by (cases exception) (auto simp: cancelled_not_Exception split: if_splits elim: is_Exception.elims)
next
  case (2 exception result futures)
  then show ?case by simp
next
  case (3 exception e futures)
  then show ?case
    by (cases e) (auto split: if_splits)
qed

text \<open>
  Over two failing awaitables and one succeeding, in any order of completion, the result of
  the succeeding one is returned.
\<close>

lemma get_first_success_any_order:
  assumes "distinct order" and "set order = {0, 1, 2}"
    and "is_Exception e1" and "is_Exception e2"
  shows "get_first_success order [Raises e1, Raises e2, Returns x] = Inr x"
proof -
  let ?aws = "[Raises e1, Raises e2, Returns x]"
  from assms(2) have "2 \<in> set order" by simp
  then obtain fs rest where o: "order = fs @ 2 # rest"
    by (auto dest: split_list)
  from assms(1) have notin: "2 \<notin> set fs"
    unfolding o by simp
  have sub: "set fs \<subseteq> set order"
    unfolding o by auto
  have "\<forall>f \<in> set (as_completed fs ?aws). \<exists>e. f = Raises e \<and> is_Exception e"
  proof
    fix f assume "f \<in> set (as_completed fs ?aws)"
    then obtain i where i: "i \<in> set fs" "f = ?aws ! i"
      unfolding as_completed_def by auto
    from i(1) sub have "i \<in> {0, 1, 2}"
      unfolding assms(2) by blast
    with i(1) notin have "i = 0 \<or> i = 1"
      by blast
    with i(2) assms(3,4) show "\<exists>e. f = Raises e \<and> is_Exception e"
      by auto
  qed
  from first_success_loop_first_result [OF this, where x = x and exception = None
      and rest = "as_completed rest ?aws"]
  show ?thesis
    unfolding get_first_success_def o as_completed_def by simp
qed

text \<open>
  Claim C3, at a single cancelled awaitable and at a cancelled awaitable that completes
  before a succeeding one: \<open>get_first_success\<close> raises the cancellation itself, where the claim
  has a timeout signal and the result \<^verbatim>\<open>X\<close>.
\<close>

theorem get_first_success_cancelled: "get_first_success [0] [Raises CancelledError :: string outcome] = Inl CancelledError
   \<and> get_first_success [0, 1] [Raises CancelledError, Returns ''X''] = Inl CancelledError"
  by (simp add: get_first_success_def as_completed_def)

subsection \<open>The outbound IP of a proxy\<close>















subsection \<open>Parsing credentials\<close>

text \<open>
  A greedy repetition of a character class, followed by something that cannot start with
  a character of the class, takes the whole run of such characters or fails; and taken
  alone it offers the longest run first.
\<close>

lemma times_class_then:
  assumes blocked: "\<And>c cs g. in_class k c \<Longrightarrow> cont (c # cs, g) = []"
  shows "concat (map cont (times (matches (Chars k)) lo hi (s, g))) =
           (let n = length (takeWhile (in_class k) s)
            in if lo \<le> n \<and> n \<le> hi then cont (drop n s, g) else [])"
proof (induction hi arbitrary: lo s)
  case 0
  show ?case
  proof (cases s)
    case Nil
    then show ?thesis by simp
  next
    case (Cons c cs)
    then show ?thesis by (simp add: blocked)
  qed
next
  case (Suc hi)
  show ?case
  proof (cases s)
    case Nil
    then show ?thesis by simp
  next
    case (Cons c cs)
    show ?thesis
    proof (cases "in_class k c")
      case False
      with Cons show ?thesis by simp
    next
      case True
      have "concat (map cont (times (matches (Chars k)) lo (Suc hi) (s, g)))
              = concat (map cont (times (matches (Chars k)) (lo - 1) hi (cs, g)))"
        using Cons True by (simp add: blocked)
      also have "\<dots> = (let n = length (takeWhile (in_class k) cs)
            in if lo - 1 \<le> n \<and> n \<le> hi then cont (drop n cs, g) else [])"
        by (rule Suc.IH)
      also have "\<dots> = (let n = length (takeWhile (in_class k) s)
            in if lo \<le> n \<and> n \<le> Suc hi then cont (drop n s, g) else [])"
        using Cons True by (auto simp: Let_def)
      finally show ?thesis .
    qed
  qed
qed

lemma times_class_first:
  "\<exists>more. times (matches (Chars k)) 0 hi (s, g)
      = (drop (min hi (length (takeWhile (in_class k) s))) s, g) # more"
proof -
  define f where "f = matches (Chars k)"
  have f_Nil: "f ([], g) = []" for g
    by (simp add: f_def)
  have f_Cons: "f (c # cs, g) = (if in_class k c then [(cs, g)] else [])" for c cs g
    by (simp add: f_def)
  have "\<exists>more. times f 0 hi (s, g)
      = (drop (min hi (length (takeWhile (in_class k) s))) s, g) # more"
  proof (induction hi arbitrary: s)
    case 0
    show ?case by simp
  next
    case (Suc hi)
    show ?case
    proof (cases s)
      case Nil
      then show ?thesis by (simp add: f_Nil)
    next
      case (Cons c cs)
      show ?thesis
      proof (cases "in_class k c")
        case False
        with Cons show ?thesis by (simp add: f_Cons)
      next
        case True
        from Suc.IH [of cs] obtain more where
          "times f 0 hi (cs, g)
             = (drop (min hi (length (takeWhile (in_class k) cs))) cs, g) # more" ..
        with Cons True show ?thesis by (simp add: f_Cons)
      qed
    qed
  qed
  then show ?thesis by (simp only: f_def)
qed

lemma in_class_digit: "in_class (Among ''0123456789'') = is_digit"
  by (rule ext) (simp add: is_digit_def)

lemma in_class_field: "in_class (Except '';,|'') = (\<lambda>c. \<not> is_delim c)"
  by (rule ext) (simp add: is_delim_def)

lemma digit_not_delim: "is_digit c \<Longrightarrow> \<not> is_delim c"
  by (auto simp: is_digit_def is_delim_def)

lemma digit_not_dot: "is_digit c \<Longrightarrow> c \<noteq> CHR ''.''"
  by (auto simp: is_digit_def)

lemma matches_Chars_Nil: "matches (Chars k) ([], g) = []"
  by simp

lemma matches_Chars_Cons:
  "matches (Chars k) (c # cs, g) = (if in_class k c then [(cs, g)] else [])"
  by simp

lemma matches_Cat: "matches (Cat a b) st = concat (map (matches b) (matches a st))"
  by simp

lemma matches_Cat_Chars_Nil: "matches (Cat (Chars k) w) ([], g) = []"
  by (simp only: matches_Cat matches_Chars_Nil) simp

lemma matches_Cat_Chars_Cons:
  "matches (Cat (Chars k) w) (c # cs, g) = (if in_class k c then matches w (cs, g) else [])"
  by (simp only: matches_Cat matches_Chars_Cons) simp

lemma matches_Repeat: "matches (Repeat lo hi r) = times (matches r) lo hi"
  by (rule ext) simp

lemma take_length_minus_dropWhile:
  "take (length r - length (dropWhile P r)) r = takeWhile P r"
  by (induction r) (simp_all add: Suc_diff_le length_dropWhile_le)

lemma matches_Star: "matches (Star r) (s, g) = times (matches r) 0 (length s) (s, g)"
  by simp

lemma matches_Group:
  "matches (Group r) (s, g) =
     map (\<lambda>m. (fst m, snd m @ [take (length s - length (fst m)) s])) (matches r (s, g))"
  by simp

lemma concat_map_map: "concat (map f (map h xs)) = concat (map (\<lambda>x. f (h x)) xs)"
  by (simp add: comp_def)

text \<open>An octet and its dot.\<close>

lemma matches_octet_dot:
  "matches (Cat (Repeat 1 3 (Chars (Among ''0123456789''))) (Chars (Among ''.''))) (s, g) =
     (case octet_dot s of None \<Rightarrow> [] | Some r \<Rightarrow> [(r, g)])"
proof -
  let ?dig = "Chars (Among ''0123456789'')" and ?dot = "Chars (Among ''.'')"
  have blocked: "matches ?dot (c # cs, g') = []" if "in_class (Among ''0123456789'') c" for c cs g'
    using that digit_not_dot [of c] by (simp add: in_class_digit)
  have "matches (Cat (Repeat 1 3 ?dig) ?dot) (s, g)
          = concat (map (matches ?dot) (times (matches ?dig) 1 3 (s, g)))"
    by (simp only: matches_Cat matches_Repeat)
  also have "\<dots> = (let n = length (takeWhile is_digit s)
                    in if 1 \<le> n \<and> n \<le> 3 then matches ?dot (drop n s, g) else [])"
    using times_class_then [where cont = "matches ?dot" and k = "Among ''0123456789''", OF blocked]
    by (simp only: in_class_digit)
  also have "\<dots> = (case octet_dot s of None \<Rightarrow> [] | Some r \<Rightarrow> [(r, g)])"
    by (cases "drop (length (takeWhile is_digit s)) s")
       (simp_all add: octet_dot_def after_octet_def Let_def del: matches.simps
          add: matches_Chars_Nil matches_Chars_Cons)
  finally show ?thesis .
qed

lemma times_exact_Suc:
  "times f (Suc lo) (Suc hi) = (\<lambda>st. concat (map (times f lo hi) (f st)))"
  by (rule ext) simp

lemma times_zero: "times f 0 0 = (\<lambda>st. [st])"
  by (rule ext) simp

lemma matches_three_octets:
  "matches (Repeat 3 3 (Cat (Repeat 1 3 (Chars (Among ''0123456789''))) (Chars (Among ''.'')))) (s, g) =
     (case octet_dot s of None \<Rightarrow> [] | Some r1 \<Rightarrow>
      case octet_dot r1 of None \<Rightarrow> [] | Some r2 \<Rightarrow>
      case octet_dot r2 of None \<Rightarrow> [] | Some r3 \<Rightarrow> [(r3, g)])"
proof -
  define f where "f = matches (Cat (Repeat 1 3 (Chars (Among ''0123456789''))) (Chars (Among ''.'')))"
  have f: "f (s, g) = (case octet_dot s of None \<Rightarrow> [] | Some r \<Rightarrow> [(r, g)])" for s g
    unfolding f_def by (rule matches_octet_dot)
  have "times f 3 3 (s, g) = concat (map (\<lambda>a. concat (map (\<lambda>b. concat (map (\<lambda>c. [c]) (f b))) (f a))) (f (s, g)))"
    by (simp only: numeral_3_eq_3 times_exact_Suc times_zero)
  also have "\<dots> = (case octet_dot s of None \<Rightarrow> [] | Some r1 \<Rightarrow>
      case octet_dot r1 of None \<Rightarrow> [] | Some r2 \<Rightarrow>
      case octet_dot r2 of None \<Rightarrow> [] | Some r3 \<Rightarrow> [(r3, g)])"
    by (simp add: f split: option.splits)
  finally show ?thesis
    by (simp only: matches_Repeat f_def)
qed

text \<open>The address group, before a pattern that cannot start with a digit.\<close>

lemma matches_ip_group:
  assumes blocked: "\<And>c cs g. is_digit c \<Longrightarrow> matches y (c # cs, g) = []"
  shows "matches (Cat (Group (Cat (Repeat 3 3 (Cat (Repeat 1 3 (Chars (Among ''0123456789'')))
                                               (Chars (Among ''.''))))
                              (Repeat 1 3 (Chars (Among ''0123456789''))))) y) (s, g) =
           (case scan_ip s of None \<Rightarrow> [] | Some (i, r) \<Rightarrow> matches y (r, g @ [i]))"
proof -
  let ?dig = "Chars (Among ''0123456789'')"
  let ?three = "Repeat 3 3 (Cat (Repeat 1 3 ?dig) (Chars (Among ''.'')))"
  define close where "close = (\<lambda>m :: mstate. (fst m, snd m @ [take (length s - length (fst m)) s]))"
  define cont where "cont = (\<lambda>m. matches y (close m))"
  have cont_blocked: "cont (c # cs, g') = []" if "in_class (Among ''0123456789'') c" for c cs g'
    using that blocked [of c cs] by (simp add: cont_def close_def in_class_digit del: matches.simps)
  have last: "concat (map cont (times (matches ?dig) 1 3 (r, g))) =
                (case after_octet r of None \<Rightarrow> [] | Some r4 \<Rightarrow>
                   matches y (r4, g @ [take (length s - length r4) s]))" for r
    using times_class_then [where cont = cont and k = "Among ''0123456789''" and lo = 1 and hi = 3
        and s = r and g = g, OF cont_blocked]
    by (simp add: in_class_digit after_octet_def Let_def cont_def close_def del: matches.simps)
  have "matches (Cat (Group (Cat ?three (Repeat 1 3 ?dig))) y) (s, g)
          = concat (map cont (concat (map (times (matches ?dig) 1 3) (matches ?three (s, g)))))"
    by (simp only: matches_Cat matches_Group matches_Repeat concat_map_map cont_def close_def)
  also have "\<dots> = (case scan_ip s of None \<Rightarrow> [] | Some (i, r) \<Rightarrow> matches y (r, g @ [i]))"
  proof -
    define three where "three =
      (case octet_dot s of None \<Rightarrow> None | Some r1 \<Rightarrow>
       case octet_dot r1 of None \<Rightarrow> None | Some r2 \<Rightarrow> octet_dot r2)"
    have m3: "matches ?three (s, g) = (case three of None \<Rightarrow> [] | Some r3 \<Rightarrow> [(r3, g)])"
      by (simp only: matches_three_octets three_def) (simp split: option.splits)
    have sip: "scan_ip s = (case three of None \<Rightarrow> None | Some r3 \<Rightarrow>
                 case after_octet r3 of None \<Rightarrow> None
                 | Some r4 \<Rightarrow> Some (take (length s - length r4) s, r4))"
      by (simp add: scan_ip_def three_def split: option.splits)
    show ?thesis
    proof (cases three)
      case None
      then show ?thesis by (simp only: m3 sip) simp
    next
      case (Some r3)
      have "concat (map cont (concat (map (times (matches ?dig) 1 3) [(r3, g)])))
              = concat (map cont (times (matches ?dig) 1 3 (r3, g)))"
        by simp
      also note last
      finally show ?thesis
        by (simp only: m3 sip Some) (simp split: option.splits del: matches.simps)
    qed
  qed
  finally show ?thesis .
qed

text \<open>A delimiter and a field group, before a pattern that has to start with a delimiter.\<close>

lemma matches_field_group:
  assumes blocked: "\<And>c cs g. \<not> is_delim c \<Longrightarrow> matches z (c # cs, g) = []"
  shows "matches (Cat (Chars (Among '';,|'')) (Cat (Group (Star (Chars (Except '';,|'')))) z)) (s, g) =
           (case scan_field s of None \<Rightarrow> [] | Some (u, r) \<Rightarrow> matches z (r, g @ [u]))"
proof (cases s)
  case Nil
  then show ?thesis
    by (simp only: matches_Cat_Chars_Nil) (simp add: scan_field_def)
next
  case (Cons d r)
  let ?fld = "Chars (Except '';,|'')"
  define close where "close = (\<lambda>m :: mstate. (fst m, snd m @ [take (length r - length (fst m)) r]))"
  define cont where "cont = (\<lambda>m. matches z (close m))"
  have cont_blocked: "cont (c # cs, g') = []" if "in_class (Except '';,|'') c" for c cs g'
    using that blocked [of c cs] by (simp add: cont_def close_def in_class_field del: matches.simps)
  have "matches (Cat (Group (Star ?fld)) z) (r, g)
          = concat (map cont (times (matches ?fld) 0 (length r) (r, g)))"
    by (simp only: matches_Cat matches_Group matches_Star concat_map_map cont_def close_def)
  also have "\<dots> = matches z (dropWhile (\<lambda>c. \<not> is_delim c) r, g @ [takeWhile (\<lambda>c. \<not> is_delim c) r])"
    using times_class_then [where cont = cont and k = "Except '';,|''" and lo = 0 and hi = "length r"
        and s = r and g = g, OF cont_blocked]
    by (simp add: in_class_field Let_def cont_def close_def length_takeWhile_le
          dropWhile_eq_drop [symmetric] take_length_minus_dropWhile del: matches.simps)
  finally have field: "matches (Cat (Group (Star ?fld)) z) (r, g)
      = matches z (dropWhile (\<lambda>c. \<not> is_delim c) r, g @ [takeWhile (\<lambda>c. \<not> is_delim c) r])" .
  show ?thesis
    unfolding Cons
    by (simp only: matches_Cat_Chars_Cons field)
       (simp add: scan_field_def is_delim_def del: matches.simps)
qed

text \<open>A delimiter and the last field group: the longest field comes first.\<close>

lemma matches_last_field:
  "first_groups (matches (Cat (Chars (Among '';,|'')) (Group (Star (Chars (Except '';,|''))))) (s, g)) =
     (case scan_field s of None \<Rightarrow> None | Some (p, r) \<Rightarrow> Some (g @ [p]))"
proof (cases s)
  case Nil
  then show ?thesis
    by (simp only: matches_Cat_Chars_Nil) (simp add: scan_field_def first_groups_def)
next
  case (Cons d r)
  let ?fld = "Chars (Except '';,|'')"
  obtain more where
    "times (matches ?fld) 0 (length r) (r, g)
       = (drop (min (length r) (length (takeWhile (in_class (Except '';,|'')) r))) r, g) # more"
    using times_class_first [of "Except '';,|''" "length r" r g] ..
  then have "first_groups (matches (Group (Star ?fld)) (r, g))
               = Some (g @ [takeWhile (\<lambda>c. \<not> is_delim c) r])"
    by (simp only: matches_Group matches_Star)
       (simp add: first_groups_def in_class_field min_absorb2 length_takeWhile_le
          takeWhile_eq_take [symmetric] del: matches.simps)
  then show ?thesis
    unfolding Cons
    by (simp only: matches_Cat_Chars_Cons)
       (simp add: scan_field_def is_delim_def first_groups_def del: matches.simps)
qed

lemma matches_ssh_pattern:
  "first_groups (matches ssh_pattern (s, [])) = match_here s"
proof -
  let ?del = "Chars (Among '';,|'')" and ?fld = "Group (Star (Chars (Except '';,|'')))"
  have b2: "matches (Cat ?del ?fld) (c # cs, g) = []" if "\<not> is_delim c" for c cs g
    using that by (simp only: matches_Cat_Chars_Cons) (simp add: is_delim_def)
  have b1: "matches (Cat ?del (Cat ?fld (Cat ?del ?fld))) (c # cs, g) = []" if "is_digit c" for c cs g
    using digit_not_delim [OF that] by (simp only: matches_Cat_Chars_Cons) (simp add: is_delim_def)
  show ?thesis
    unfolding ssh_pattern_def
    by (simp only: matches_ip_group [OF b1])
       (simp add: match_here_def matches_field_group [OF b2] matches_last_field
          first_groups_def [of "[]"] split: option.splits del: matches.simps)
qed

text \<open>
  The scanner finds exactly the texts of the shape it is named after.
\<close>

lemma takeWhile_all_then:
  "list_all P a \<Longrightarrow> (case r of [] \<Rightarrow> True | c # _ \<Rightarrow> \<not> P c) \<Longrightarrow>
     takeWhile P (a @ r) = a \<and> dropWhile P (a @ r) = r"
  by (induction a) (auto split: list.splits)


lemma takeWhile_not_all_then:
  "list_all (\<lambda>c. \<not> P c) a \<Longrightarrow> (case r of [] \<Rightarrow> True | c # _ \<Rightarrow> P c) \<Longrightarrow>
     takeWhile (\<lambda>c. \<not> P c) (a @ r) = a \<and> dropWhile (\<lambda>c. \<not> P c) (a @ r) = r"
  by (induction a) (auto split: list.splits)


lemma after_octet_complete:
  assumes "octet_shape a" and "ends_digits r"
  shows "after_octet (a @ r) = Some r"
proof -
  from assms have "takeWhile is_digit (a @ r) = a"
    using takeWhile_all_then [of is_digit a r] by (simp add: octet_shape_def ends_digits_def)
  with assms(1) show ?thesis
    by (simp add: after_octet_def octet_shape_def)
qed


lemma not_digit_dot: "\<not> is_digit CHR ''.''"
  by (simp add: is_digit_def)

lemma octet_dot_complete:
  assumes "octet_shape a"
  shows "octet_dot (a @ CHR ''.'' # r) = Some r"
  using after_octet_complete [OF assms, of "CHR ''.'' # r"]
  by (simp add: octet_dot_def ends_digits_def not_digit_dot)


lemma scan_ip_complete:
  assumes "ip_shape i" and "ends_digits r"
  shows "scan_ip (i @ r) = Some (i, r)"
proof -
  from assms(1) obtain a b c d where s: "octet_shape a" "octet_shape b" "octet_shape c" "octet_shape d"
    and i: "i = a @ ''.'' @ b @ ''.'' @ c @ ''.'' @ d"
    unfolding ip_shape_def by blast
  have 1: "octet_dot (i @ r) = Some (b @ CHR ''.'' # c @ CHR ''.'' # d @ r)"
    using octet_dot_complete [OF s(1)] by (simp add: i)
  have 2: "octet_dot (b @ CHR ''.'' # c @ CHR ''.'' # d @ r) = Some (c @ CHR ''.'' # d @ r)"
    using octet_dot_complete [OF s(2)] by simp
  have 3: "octet_dot (c @ CHR ''.'' # d @ r) = Some (d @ r)"
    using octet_dot_complete [OF s(3)] by simp
  have 4: "after_octet (d @ r) = Some r"
    using after_octet_complete [OF s(4) assms(2)] .
  show ?thesis
    by (simp add: scan_ip_def 1 2 3 4)
qed


lemma scan_field_complete:
  assumes "is_delim d" and "no_delim u" and "ends_field r"
  shows "scan_field (d # u @ r) = Some (u, r)"
  using assms takeWhile_not_all_then [of is_delim u r]
  by (simp add: scan_field_def no_delim_def ends_field_def)


lemma delim_ends_digits: "is_delim d \<Longrightarrow> ends_digits (d # r)"
  by (auto simp: ends_digits_def is_digit_def is_delim_def)

lemma delim_ends_field: "is_delim d \<Longrightarrow> ends_field (d # r)"
  by (simp add: ends_field_def)

lemma match_here_complete:
  assumes "ip_shape i" "is_delim d1" "no_delim u" "is_delim d2" "no_delim p" "ends_field r"
  shows "match_here (i @ d1 # u @ d2 # p @ r) = Some [i, u, p]"
proof -
  have 1: "scan_ip (i @ d1 # u @ d2 # p @ r) = Some (i, d1 # u @ d2 # p @ r)"
    by (rule scan_ip_complete [OF assms(1) delim_ends_digits [OF assms(2)]])
  have 2: "scan_field (d1 # u @ d2 # p @ r) = Some (u, d2 # p @ r)"
    by (rule scan_field_complete [OF assms(2,3) delim_ends_field [OF assms(4)]])
  have 3: "scan_field (d2 # p @ r) = Some (p, r)"
    by (rule scan_field_complete [OF assms(4,5,6)])
  show ?thesis
    by (simp add: match_here_def 1 2 3)
qed


text \<open>
  The search tries the positions from left to right; a line gives a match exactly when
  it has a credential.
\<close>

lemma search_ssh_pattern:
  "search ssh_pattern s =
     (case match_here s of
        Some gs \<Rightarrow> Some gs
      | None \<Rightarrow> (case s of [] \<Rightarrow> None | _ # cs \<Rightarrow> search ssh_pattern cs))"
proof -
  have "first_groups (matches ssh_pattern (s, [])) = match_here s"
    by (rule matches_ssh_pattern)
  then show ?thesis
    by (subst search.simps) (auto simp: first_groups_def split: list.splits option.splits)
qed

lemma search_here: "match_here s = Some gs \<Longrightarrow> search ssh_pattern s = Some gs"
  by (subst search_ssh_pattern) simp



lemma match_here_needs_digit: "\<not> is_digit c \<Longrightarrow> match_here (c # s) = None"
  by (simp add: match_here_def scan_ip_def octet_dot_def after_octet_def)

lemma match_here_Nil: "match_here [] = None"
  by (simp add: match_here_def scan_ip_def octet_dot_def after_octet_def)

lemma search_skip:
  "list_all (\<lambda>c. \<not> is_digit c) pre \<Longrightarrow> search ssh_pattern (pre @ m) = search ssh_pattern m"
proof (induction pre)
  case Nil
  show ?case by simp
next
  case (Cons c pre)
  then have "search ssh_pattern ((c # pre) @ m) = search ssh_pattern (pre @ m)"
    by (subst search_ssh_pattern) (simp add: match_here_needs_digit)
  with Cons show ?case by simp
qed






lemma splitlines_from_one_line:
  "one_line s \<Longrightarrow> cur @ s \<noteq> [] \<Longrightarrow> splitlines_from cur s = [cur @ s]"
proof (induction s arbitrary: cur)
  case Nil
  then show ?case by (subst splitlines_from.simps) simp
next
  case (Cons c cs)
  then have "splitlines_from (cur @ [c]) cs = [(cur @ [c]) @ cs]"
    by simp
  with Cons.prems show ?case
    by (subst splitlines_from.simps) simp
qed

lemma splitlines_one_line: "one_line s \<Longrightarrow> s \<noteq> [] \<Longrightarrow> splitlines s = [s]"
  using splitlines_from_one_line [of s "[]"] by (simp add: splitlines_def)



lemma parse_single_line:
  assumes "search ssh_pattern line = Some [i, u, p]" and "one_line line" and "line \<noteq> []"
  shows "parse_ssh_file line = Inr [[(''ip'', i), (''username'', u), (''password'', p)]]"
  using assms by (simp add: parse_ssh_file_def splitlines_one_line)




text \<open>
  Claim C10. Octets are not checked against 255: \<^verbatim>\<open>999.999.999.999;u;p\<close> gives a record.
  A match can start inside the line, even inside a longer run of digits, as in
  \<^verbatim>\<open>foo 1234.5.6.7|u,p;extra stuff\<close>; and whatever text without digits stands before an
  address with its two fields, and whatever text follows a delimiter after the second
  field, the record is that of the address and the two fields.
\<close>

theorem parse_ssh_file_lenient:
  "parse_ssh_file ''999.999.999.999;u;p''
     = Inr [[(''ip'', ''999.999.999.999''), (''username'', ''u''), (''password'', ''p'')]]
   \<and> parse_ssh_file ''foo 1234.5.6.7|u,p;extra stuff''
       = Inr [[(''ip'', ''234.5.6.7''), (''username'', ''u''), (''password'', ''p'')]]
   \<and> (ip_shape i \<and> is_delim d1 \<and> no_delim u \<and> is_delim d2 \<and> no_delim p \<and> is_delim d3
        \<and> list_all (\<lambda>c. \<not> is_digit c) pre
        \<and> one_line (pre @ i @ d1 # u @ d2 # p @ d3 # rest)
      \<longrightarrow> parse_ssh_file (pre @ i @ d1 # u @ d2 # p @ d3 # rest)
            = Inr [[(''ip'', i), (''username'', u), (''password'', p)]])"
proof (intro conjI impI)
  show "parse_ssh_file ''999.999.999.999;u;p''
     = Inr [[(''ip'', ''999.999.999.999''), (''username'', ''u''), (''password'', ''p'')]]"
    by code_simp
  show "parse_ssh_file ''foo 1234.5.6.7|u,p;extra stuff''
       = Inr [[(''ip'', ''234.5.6.7''), (''username'', ''u''), (''password'', ''p'')]]"
    by code_simp
  assume h: "ip_shape i \<and> is_delim d1 \<and> no_delim u \<and> is_delim d2 \<and> no_delim p \<and> is_delim d3
        \<and> list_all (\<lambda>c. \<not> is_digit c) pre
        \<and> one_line (pre @ i @ d1 # u @ d2 # p @ d3 # rest)"
  then have "match_here (i @ d1 # u @ d2 # p @ d3 # rest) = Some [i, u, p]"
    by (intro match_here_complete) (simp_all add: ends_field_def)
  then have "search ssh_pattern (i @ d1 # u @ d2 # p @ d3 # rest) = Some [i, u, p]"
    by (rule search_here)
  with h have "search ssh_pattern (pre @ i @ d1 # u @ d2 # p @ d3 # rest) = Some [i, u, p]"
    by (simp add: search_skip)
  with h show "parse_ssh_file (pre @ i @ d1 # u @ d2 # p @ d3 # rest)
            = Inr [[(''ip'', i), (''username'', u), (''password'', p)]]"
    by (intro parse_single_line) simp_all
qed

lemma ip_shape_out_of_range: "ip_shape ''999.999.999.999''"
  unfolding ip_shape_def
  by (rule exI [of _ "''999''"], rule exI [of _ "''999''"], rule exI [of _ "''999''"],
      rule exI [of _ "''999''"]) (simp add: octet_shape_def is_digit_def)

text \<open>
  At \<^verbatim>\<open>root@999.999.999.999;u;p;and more\<close>.
\<close>

theorem parse_ssh_file_lenient_witness:
  "ip_shape ''999.999.999.999'' \<and> is_delim CHR '';'' \<and> no_delim ''u'' \<and> no_delim ''p''
   \<and> list_all (\<lambda>c. \<not> is_digit c) ''root@''
   \<and> one_line ''root@999.999.999.999;u;p;and more''
   \<and> parse_ssh_file ''root@999.999.999.999;u;p;and more''
        = Inr [[(''ip'', ''999.999.999.999''), (''username'', ''u''), (''password'', ''p'')]]"
proof -
  have d: "is_delim CHR '';''" "no_delim ''u''" "no_delim ''p''"
    "list_all (\<lambda>c. \<not> is_digit c) ''root@''"
    by (simp_all add: is_delim_def no_delim_def is_digit_def)
  have o: "one_line ''root@999.999.999.999;u;p;and more''"
    by code_simp
  from parse_ssh_file_lenient [where i = "''999.999.999.999''" and ?d1.0 = "CHR '';''"
      and u = "''u''" and ?d2.0 = "CHR '';''" and p = "''p''" and ?d3.0 = "CHR '';''"
      and pre = "''root@''" and rest = "''and more''"]
    ip_shape_out_of_range d o
  show ?thesis by simp
qed

end
